theory Spec2Isabelle
  imports Complex_Main
begin

section \<open>Python failures\<close>

text \<open>
  The exceptions the modelled code can raise. A computation that may raise returns
  \<open>py_error + 'a\<close>, with \<open>Inl\<close> for the exception.
\<close>

datatype py_error = IndexError | KeyError | ZeroDivisionError | ValueError | AttributeError

section \<open>Selecting a utility vector (evaluator.py, game.py, game\_prep.py)\<close>

text \<open>
  A utility vector is a Python dictionary from players to numbers: a map
  \<open>'p \<rightharpoonup> 'v\<close> over a linearly ordered type of values. \<open>dictionary[key]\<close>
  raises KeyError when the key is missing, \<open>dictionaries[0]\<close> raises IndexError on the
  empty list.

  \<^verbatim>\<open>
  def max_by_key(key, dictionaries):
      current_max = dictionaries[0]
      for dictionary in dictionaries:
          if dictionary[key] > current_max[key]:
              current_max = dictionary
      return current_max
  \<close>
\<close>

fun max_by_key_loop ::
  "'p \<Rightarrow> ('p \<rightharpoonup> 'v::linorder) \<Rightarrow> ('p \<rightharpoonup> 'v) list \<Rightarrow> py_error + ('p \<rightharpoonup> 'v)" where
  "max_by_key_loop key current_max [] = Inr current_max"
| "max_by_key_loop key current_max (dictionary # remaining) =
     (case dictionary key of
        None \<Rightarrow> Inl KeyError
      | Some v \<Rightarrow>
          (case current_max key of
             None \<Rightarrow> Inl KeyError
           | Some c \<Rightarrow>
               max_by_key_loop key (if v > c then dictionary else current_max) remaining))"

definition max_by_key ::
  "'p \<Rightarrow> ('p \<rightharpoonup> 'v::linorder) list \<Rightarrow> py_error + ('p \<rightharpoonup> 'v)" where
  "max_by_key key dictionaries =
     (case dictionaries of
        [] \<Rightarrow> Inl IndexError
      | first # _ \<Rightarrow> max_by_key_loop key first dictionaries)"

text \<open>\<open>dictionary_max\<close> of game.py and game\_prep.py has the same body.\<close>

definition dictionary_max ::
  "'p \<Rightarrow> ('p \<rightharpoonup> 'v::linorder) list \<Rightarrow> py_error + ('p \<rightharpoonup> 'v)" where
  "dictionary_max key dictionaries =
     (case dictionaries of
        [] \<Rightarrow> Inl IndexError
      | first # _ \<Rightarrow> max_by_key_loop key first dictionaries)"

section \<open>The Rule contract (rule.py)\<close>

text \<open>
  \<open>Rule\<close> is an abstract class: \<open>get_legal_moves\<close>, \<open>execute_move\<close>,
  \<open>undo_move\<close> and \<open>get_utility\<close> are supplied by the concrete rule. A rule object
  is the record of its methods over the state \<open>'w\<close> that the rule tree mutates in
  place. \<open>self_player\<close> is the attribute \<open>self.player\<close> (\<open>None\<close> when it is
  falsy), \<open>bottom_player\<close> is \<open>self.get_bottom_rule().player\<close>. Utility values are
  numbers; \<open>get_utility\<close> may raise (see \<open>RuleSum_get_utility\<close>).
\<close>

record ('w, 'm, 'p, 'v) rule =
  self_player :: "'w \<Rightarrow> 'p option"
  bottom_player :: "'w \<Rightarrow> 'p"
  get_legal_moves :: "'w \<Rightarrow> 'm list"
  execute_move :: "'m \<Rightarrow> 'w \<Rightarrow> 'w"
  undo_move :: "'m \<Rightarrow> 'w \<Rightarrow> 'w"
  get_utility :: "'w \<Rightarrow> py_error + ('p \<rightharpoonup> 'v)"

text \<open>
  The ambient randomness of the \<open>random\<close> module, made explicit: a generator state
  \<open>'g\<close>, \<open>random()\<close> returning a number and the next state, and
  \<open>sample(population, k)\<close>, which may raise ValueError.
\<close>

record ('m, 'g) rng =
  random :: "'g \<Rightarrow> rat \<times> 'g"
  sample :: "'m list \<Rightarrow> int \<Rightarrow> 'g \<Rightarrow> py_error + ('m list \<times> 'g)"

text \<open>
  A \<open>for\<close> loop whose body may raise and threads a state: the results of the body in
  order, or the first exception.
\<close>

fun for_each ::
  "('m \<Rightarrow> 's \<Rightarrow> py_error + ('a \<times> 's)) \<Rightarrow> 'm list \<Rightarrow> 's \<Rightarrow> py_error + ('a list \<times> 's)" where
  "for_each body [] s = Inr ([], s)"
| "for_each body (m # ms) s =
     (case body m s of
        Inl e \<Rightarrow> Inl e
      | Inr (a, s') \<Rightarrow>
          (case for_each body ms s' of
             Inl e \<Rightarrow> Inl e
           | Inr (as, s'') \<Rightarrow> Inr (a # as, s'')))"

text \<open>The slice \<open>xs[:n]\<close>: a negative \<open>n\<close> counts from the end.\<close>

definition py_take :: "int \<Rightarrow> 'a list \<Rightarrow> 'a list" where
  "py_take n xs = (if n < 0 then take (nat (int (length xs) + n)) xs else take (nat n) xs)"

section \<open>The n-max search (Rule.max\_n, rule.py)\<close>

text \<open>
  \<^verbatim>\<open>
  def evaluate(m):
      self.execute_move(m)
      utility = self.max_n(k)[player]
      self.undo_move(m)
      return utility
  \<close>
  \<open>search\<close> stands for the call \<open>self.max_n(k)\<close>; the result is paired with the move, as
  \<open>sorted\<close> pairs each element with its key.
\<close>

definition evaluate ::
  "('w, 'm, 'p, 'v) rule \<Rightarrow> ('w \<times> 'g \<Rightarrow> py_error + (('p \<rightharpoonup> 'v) \<times> 'w \<times> 'g)) \<Rightarrow> 'p \<Rightarrow> 'm
     \<Rightarrow> 'w \<times> 'g \<Rightarrow> py_error + (('m \<times> 'v) \<times> 'w \<times> 'g)" where
  "evaluate self search player m s =
     (case search (execute_move self m (fst s), snd s) of
        Inl e \<Rightarrow> Inl e
      | Inr (u, w', g') \<Rightarrow>
          (case u player of
             None \<Rightarrow> Inl KeyError
           | Some utility \<Rightarrow> Inr ((m, utility), undo_move self m w', g')))"

text \<open>
  The pruning step, taken when \<open>width\<close> is truthy and below the number of legal moves:
  \<^verbatim>\<open>
  if temp < random():
      legal = sorted(legal, key=evaluate)[:width]
  else:
      legal = sample(self.get_legal_moves(), width)
  \<close>
  \<open>sorted\<close> computes the key of every move in order, then sorts stably.
\<close>

definition prune ::
  "('w, 'm, 'p, 'v::linorder) rule \<Rightarrow> ('m, 'g) rng
     \<Rightarrow> ('w \<times> 'g \<Rightarrow> py_error + (('p \<rightharpoonup> 'v) \<times> 'w \<times> 'g)) \<Rightarrow> rat \<Rightarrow> int \<Rightarrow> 'p \<Rightarrow> 'm list
     \<Rightarrow> 'w \<times> 'g \<Rightarrow> py_error + ('m list \<times> 'w \<times> 'g)" where
  "prune self rng search temp width player legal s =
     (case random rng (snd s) of
        (r, g1) \<Rightarrow>
          if temp < r then
            (case for_each (evaluate self search player) legal (fst s, g1) of
               Inl e \<Rightarrow> Inl e
             | Inr (keyed, s') \<Rightarrow> Inr (py_take width (map fst (sort_key snd keyed)), s'))
          else
            (case sample rng (get_legal_moves self (fst s)) width g1 of
               Inl e \<Rightarrow> Inl e
             | Inr (chosen, g2) \<Rightarrow> Inr (chosen, fst s, g2)))"

text \<open>
  The body of the loop over the moves that are explored:
  \<^verbatim>\<open>
  self.execute_move(move)
  utilities.append(self.max_n(depth - 1, width, temp))
  self.undo_move(move)
  \<close>
\<close>

definition explore_move ::
  "('w, 'm, 'p, 'v) rule \<Rightarrow> ('w \<times> 'g \<Rightarrow> py_error + (('p \<rightharpoonup> 'v) \<times> 'w \<times> 'g)) \<Rightarrow> 'm
     \<Rightarrow> 'w \<times> 'g \<Rightarrow> py_error + (('p \<rightharpoonup> 'v) \<times> 'w \<times> 'g)" where
  "explore_move self search move s =
     (case search (execute_move self move (fst s), snd s) of
        Inl e \<Rightarrow> Inl e
      | Inr (u, w', g') \<Rightarrow> Inr (u, undo_move self move w', g'))"

text \<open>
  \<^verbatim>\<open>
  def max_n(self, depth, width=None, temp=1, k=1):
      if self.player:
          player = self.player
      else:
          player = self.get_bottom_rule().player
      legal = self.get_legal_moves()
      if width and width < len(legal):
          ...  (the pruning step)
      if depth == 0 or not legal:
          return self.get_utility()
      else:
          utilities = []
          for move in legal:
              ...  (the loop body)
          return max_by_key(player, utilities)
  \<close>
  \<open>depth\<close> and \<open>k\<close> are search depths, natural numbers. The result carries the rule
  state and the generator state the search leaves behind.
\<close>

function max_n ::
  "('w, 'm, 'p, 'v::linorder) rule \<Rightarrow> ('m, 'g) rng \<Rightarrow> nat \<Rightarrow> int option \<Rightarrow> rat \<Rightarrow> nat
     \<Rightarrow> 'w \<times> 'g \<Rightarrow> py_error + (('p \<rightharpoonup> 'v) \<times> 'w \<times> 'g)" where
  "max_n self rng depth width temp k s =
     (let player = (case self_player self (fst s) of Some p \<Rightarrow> p | None \<Rightarrow> bottom_player self (fst s));
          legal = get_legal_moves self (fst s);
          pruned =
            (case width of
               None \<Rightarrow> Inr (legal, s)
             | Some wd \<Rightarrow>
                 if wd \<noteq> 0 \<and> wd < int (length legal)
                 then prune self rng (\<lambda>s'. max_n self rng k None 1 1 s') temp wd player legal s
                 else Inr (legal, s))
      in case pruned of
           Inl e \<Rightarrow> Inl e
         | Inr (legal', s') \<Rightarrow>
             if depth = 0 \<or> legal' = [] then
               (case get_utility self (fst s') of
                  Inl e \<Rightarrow> Inl e
                | Inr u \<Rightarrow> Inr (u, s'))
             else
               (case for_each
                       (explore_move self (\<lambda>s''. max_n self rng (depth - 1) width temp 1 s''))
                       legal' s' of
                  Inl e \<Rightarrow> Inl e
                | Inr (utilities, s'') \<Rightarrow>
                    (case max_by_key player utilities of
                       Inl e \<Rightarrow> Inl e
                     | Inr u \<Rightarrow> Inr (u, s''))))"
  by pat_completeness auto
termination
  by (relation "inv_image (less_than <*lex*> less_than)
        (\<lambda>(self, rng, depth, width, temp, k, s). (if width = None then 0 else (1::nat), depth))")
     auto

declare max_n.simps [simp del]

section \<open>The n-max search of an evaluator (Evaluator.explore, evaluator.py)\<close>




section \<open>RuleSum.get\_utility (rule.py)\<close>

text \<open>
  \<^verbatim>\<open>
  def get_utility(self):
      return max_by_key(self.player, [rule.get_utility() for rule in self.sub_rule])
  \<close>
  \<open>sub_rules\<close> is the tuple \<open>self.sub_rule\<close> of sibling rules.
\<close>

fun get_utilities ::
  "('w, 'm, 'p, 'v) rule list \<Rightarrow> 'w \<Rightarrow> py_error + ('p \<rightharpoonup> 'v) list" where
  "get_utilities [] w = Inr []"
| "get_utilities (r # rs) w =
     (case get_utility r w of
        Inl e \<Rightarrow> Inl e
      | Inr u \<Rightarrow> (case get_utilities rs w of Inl e \<Rightarrow> Inl e | Inr us \<Rightarrow> Inr (u # us)))"

definition RuleSum_get_utility ::
  "'p \<Rightarrow> ('w, 'm, 'p, 'v::linorder) rule list \<Rightarrow> 'w \<Rightarrow> py_error + ('p \<rightharpoonup> 'v)" where
  "RuleSum_get_utility player sub_rules w =
     (case get_utilities sub_rules w of
        Inl e \<Rightarrow> Inl e
      | Inr utilities \<Rightarrow> max_by_key player utilities)"

section \<open>The sequencer (SimpleTurn, rule.py)\<close>

text \<open>
  Python's \<open>a % b\<close> on integers raises ZeroDivisionError for \<open>b = 0\<close> and otherwise takes
  the sign of the divisor, as \<open>mod\<close> on \<open>int\<close> does. \<open>xs[i]\<close> counts a negative index from
  the end and raises IndexError out of range. \<open>and_then\<close> runs the next statement unless
  the first one raised.
\<close>

definition py_mod :: "int \<Rightarrow> int \<Rightarrow> py_error + int" where
  "py_mod a b = (if b = 0 then Inl ZeroDivisionError else Inr (a mod b))"

definition py_index :: "'a list \<Rightarrow> int \<Rightarrow> py_error + 'a" where
  "py_index xs i =
     (if 0 \<le> i \<and> i < int (length xs) then Inr (xs ! nat i)
      else if i < 0 \<and> - int (length xs) \<le> i then Inr (xs ! nat (int (length xs) + i))
      else Inl IndexError)"

definition and_then :: "py_error + 'a \<Rightarrow> ('a \<Rightarrow> py_error + 'b) \<Rightarrow> py_error + 'b" where
  "and_then r f = (case r of Inl e \<Rightarrow> Inl e | Inr a \<Rightarrow> f a)"

text \<open>
  The attributes of a \<open>SimpleTurn\<close>: the tuple \<open>sequence\<close> of sub-rules (references of
  type \<open>'r\<close>), the index \<open>turn\<close> and the active \<open>sub_rule\<close>. \<open>rest\<close> is everything else the
  rule tree can reach: the game state and the state of the sub-rules. The sub-rules are
  rule objects \<open>rules r\<close> over the whole state.
\<close>

record ('r, 'x) simple_turn =
  sequence :: "'r list"
  turn :: int
  sub_rule :: 'r
  rest :: 'x

text \<open>
  \<^verbatim>\<open>
  def __init__(self, game_state, *sub_rules, turn=0):
      self.sequence = sub_rules
      self.turn = turn % len(self.sequence)
      super().__init__(game_state=game_state, sub_rule=self.sequence[0])
  \<close>
  \<open>Game.__init__\<close> stores the attributes and calls \<open>self.game_state.add_pieces(self)\<close>;
  \<open>add_pieces\<close> belongs to the game state, which is not among the sources, and is a
  parameter.
\<close>

definition SimpleTurn_init ::
  "('x \<Rightarrow> 'x) \<Rightarrow> 'x \<Rightarrow> 'r list \<Rightarrow> int \<Rightarrow> py_error + ('r, 'x) simple_turn" where
  "SimpleTurn_init add_pieces game_state sub_rules t =
     and_then (py_mod t (int (length sub_rules))) (\<lambda>t'.
     and_then (py_index sub_rules 0) (\<lambda>first.
       Inr \<lparr>sequence = sub_rules, turn = t', sub_rule = first, rest = add_pieces game_state\<rparr>))"

text \<open>
  \<^verbatim>\<open>
  def get_legal_moves(self):
      legal = []
      for sub_move in self.sub_rule.get_legal_moves():
          legal.append((self.sub_rule, sub_move))
      return legal
  \<close>
\<close>

definition SimpleTurn_get_legal_moves ::
  "('r \<Rightarrow> (('r, 'x) simple_turn, 'm, 'p, 'v) rule) \<Rightarrow> ('r, 'x) simple_turn \<Rightarrow> ('r \<times> 'm) list" where
  "SimpleTurn_get_legal_moves rules st =
     map (\<lambda>sub_move. (sub_rule st, sub_move)) (get_legal_moves (rules (sub_rule st)) st)"

text \<open>
  \<^verbatim>\<open>
  def execute_move(self, move=None):
      self.turn = (self.turn + 1) % len(self.sequence)
      self.sub_rule = self.sequence[self.turn]
      if move:
          sub_rule, sub_move = move
          sub_rule.execute_move(sub_move)

  def undo_move(self, move=None):
      if move:
          sub_rule, sub_move = move
          sub_rule.undo_move(sub_move)
      self.turn = (self.turn - 1) % len(self.sequence)
      self.sub_rule = self.sequence[self.turn]
  \<close>
\<close>

definition SimpleTurn_execute_move ::
  "('r \<Rightarrow> (('r, 'x) simple_turn, 'm, 'p, 'v) rule) \<Rightarrow> ('r \<times> 'm) option \<Rightarrow> ('r, 'x) simple_turn
     \<Rightarrow> py_error + ('r, 'x) simple_turn" where
  "SimpleTurn_execute_move rules move st =
     and_then (py_mod (turn st + 1) (int (length (sequence st)))) (\<lambda>t.
     and_then (py_index (sequence st) t) (\<lambda>active.
       let st1 = st\<lparr>turn := t, sub_rule := active\<rparr>
       in Inr (case move of
                 None \<Rightarrow> st1
               | Some (r, sub_move) \<Rightarrow> execute_move (rules r) sub_move st1)))"

definition SimpleTurn_undo_move ::
  "('r \<Rightarrow> (('r, 'x) simple_turn, 'm, 'p, 'v) rule) \<Rightarrow> ('r \<times> 'm) option \<Rightarrow> ('r, 'x) simple_turn
     \<Rightarrow> py_error + ('r, 'x) simple_turn" where
  "SimpleTurn_undo_move rules move st =
     (let st1 = (case move of
                   None \<Rightarrow> st
                 | Some (r, sub_move) \<Rightarrow> undo_move (rules r) sub_move st)
      in and_then (py_mod (turn st1 - 1) (int (length (sequence st1)))) (\<lambda>t.
         and_then (py_index (sequence st1) t) (\<lambda>active.
           Inr (st1\<lparr>turn := t, sub_rule := active\<rparr>))))"

text \<open>
  The index is in \<open>[0, N)\<close>; and the sub-rules leave the sequencer's own index and
  sequence alone (they own only their part of the state).
\<close>

definition turn_in_range :: "('r, 'x) simple_turn \<Rightarrow> bool" where
  "turn_in_range st \<longleftrightarrow> 0 \<le> turn st \<and> turn st < int (length (sequence st))"

definition keeps_sequencer ::
  "('r \<Rightarrow> (('r, 'x) simple_turn, 'm, 'p, 'v) rule) \<Rightarrow> bool" where
  "keeps_sequencer rules \<longleftrightarrow>
     (\<forall>r m st. turn (execute_move (rules r) m st) = turn st
            \<and> sequence (execute_move (rules r) m st) = sequence st
            \<and> turn (undo_move (rules r) m st) = turn st
            \<and> sequence (undo_move (rules r) m st) = sequence st)"

text \<open>
  Sub-rules for the examples: each one owns the counter \<open>rest\<close>, its only legal move
  raises the counter by one.
\<close>

definition counters :: "string \<Rightarrow> ((string, int) simple_turn, int, string, rat) rule" where
  "counters r =
     \<lparr>self_player = (\<lambda>st. Some r),
      bottom_player = (\<lambda>st. r),
      get_legal_moves = (\<lambda>st. [rest st + 1]),
      execute_move = (\<lambda>m st. st\<lparr>rest := m\<rparr>),
      undo_move = (\<lambda>m st. st\<lparr>rest := m - 1\<rparr>),
      get_utility = (\<lambda>st. Inr [r \<mapsto> 1 / 2])\<rparr>"


section \<open>Observing a search\<close>



section \<open>A concrete tree for the examples\<close>

text \<open>
  A root (state \<open>0\<close>) with the three legal moves \<open>1\<close>, \<open>2\<close>, \<open>3\<close>; move \<open>i\<close> leads to
  the terminal position \<open>i\<close>, undoing leads back to the root. Player \<open>A\<close> is to move.
  \<open>constant_rng r\<close> is a generator whose \<open>random()\<close> always returns \<open>r\<close>.
\<close>

definition three_moves :: "(nat, nat, string, rat) rule" where
  "three_moves =
     \<lparr>self_player = (\<lambda>w. Some ''A''),
      bottom_player = (\<lambda>w. ''A''),
      get_legal_moves = (\<lambda>w. if w = 0 then [1, 2, 3] else []),
      execute_move = (\<lambda>m w. m),
      undo_move = (\<lambda>m w. 0),
      get_utility = (\<lambda>w.
        if w = 1 then Inr [''A'' \<mapsto> 2 / 10, ''B'' \<mapsto> 8 / 10]
        else if w = 2 then Inr [''A'' \<mapsto> 6 / 10, ''B'' \<mapsto> 4 / 10]
        else if w = 3 then Inr [''A'' \<mapsto> 9 / 10, ''B'' \<mapsto> 1 / 10]
        else Inr [''A'' \<mapsto> 5 / 10, ''B'' \<mapsto> 5 / 10])\<rparr>"

definition constant_rng :: "rat \<Rightarrow> (nat, unit) rng" where
  "constant_rng r = \<lparr>random = (\<lambda>g. (r, g)), sample = (\<lambda>population n g. Inr (take (nat n) population, g))\<rparr>"



section \<open>Rule objects and the game state (rule.py, coordinate\_rule.py)\<close>

text \<open>
  The rules of a piece form a chain linked by \<open>sub_rule\<close>; a tile, the rule that stores
  the coordinates, ends the chain. A rule object is its identity \<open>oid\<close>, the name of its
  class \<open>kind\<close> and its sub-rule. Coordinates are tuples of numbers.
  \<^verbatim>\<open>
  def get_bottom_rule(self):
      if self.sub_rule:
          return self.sub_rule.get_bottom_rule()
      else:
          return self

  def get_piece(self):
      if self.sub_rule:
          return [self] + self.sub_rule.get_piece()
      else:
          return [self]
  \<close>
\<close>

type_synonym coords = "int list"

datatype rule_obj = RuleObj (oid: nat) (kind: string) (sub: "rule_obj option")

fun get_bottom_rule :: "rule_obj \<Rightarrow> rule_obj" where
  "get_bottom_rule (RuleObj i k None) = RuleObj i k None"
| "get_bottom_rule (RuleObj i k (Some s)) = get_bottom_rule s"

fun get_piece :: "rule_obj \<Rightarrow> rule_obj list" where
  "get_piece (RuleObj i k None) = [RuleObj i k None]"
| "get_piece (RuleObj i k (Some s)) = RuleObj i k (Some s) # get_piece s"

text \<open>
  A move of a coordinate rule is the tuple \<open>(new_coords, old_coords, *captures)\<close>: the
  destination, the origin and the pieces that a capture rule below has attached (none for
  a pattern rule or a tile).
\<close>

type_synonym coord_move = "coords \<times> coords \<times> rule_obj list"

text \<open>
  The state that the rule objects mutate: the attribute \<open>coords\<close> of every tile (by the
  tile's identity), the rules that are active in the game state, and the notifications
  sent so far.
\<close>

record world =
  tile_coords :: "nat \<Rightarrow> coords"
  top_rules :: "rule_obj list"
  changes :: "(nat \<times> bool) list"

text \<open>
  Modelled from the spec: \<open>self.changed(move, undo=...)\<close> is called by every
  \<open>execute_move\<close> and \<open>undo_move\<close> of coordinate\_rule.py, and no source file defines
  it. The specification says that execute and undo notify the registered listeners with
  the move and the undo flag; the notification is recorded and changes nothing else.
\<close>

definition changed :: "rule_obj \<Rightarrow> bool \<Rightarrow> world \<Rightarrow> world" where
  "changed self undo w = w\<lparr>changes := changes w @ [(oid self, undo)]\<rparr>"



text \<open>
  Modelled from the spec: \<open>game_state.get_top_rules(*filters)\<close> of the module
  game\_state. The specification says it returns the currently active top-level rules
  that match any of the given type filters; without a filter, all of them.
\<close>

definition get_top_rules :: "world \<Rightarrow> string list \<Rightarrow> rule_obj list" where
  "get_top_rules w filters = filter (\<lambda>r. filters = [] \<or> kind r \<in> set filters) (top_rules w)"

text \<open>
  \<^verbatim>\<open>
  class Tile(Rule):
      def get_coords(self):
          return self.coords
      def generate_legal_moves(self):
          return []
      def execute_move(self, move):
          self.coords = move[0]
          self.changed(move, undo=False)
      def undo_move(self, move):
          self.coords = move[1]
          self.changed(move, undo=True)
  \<close>
\<close>

definition Tile_get_coords :: "rule_obj \<Rightarrow> world \<Rightarrow> coords" where
  "Tile_get_coords self w = tile_coords w (oid self)"

definition Tile_generate_legal_moves :: "rule_obj \<Rightarrow> world \<Rightarrow> coord_move list" where
  "Tile_generate_legal_moves self w = []"

definition Tile_execute_move :: "rule_obj \<Rightarrow> coord_move \<Rightarrow> world \<Rightarrow> world" where
  "Tile_execute_move self move w =
     changed self False (w\<lparr>tile_coords := (tile_coords w)(oid self := fst move)\<rparr>)"

definition Tile_undo_move :: "rule_obj \<Rightarrow> coord_move \<Rightarrow> world \<Rightarrow> world" where
  "Tile_undo_move self move w =
     changed self True (w\<lparr>tile_coords := (tile_coords w)(oid self := fst (snd move))\<rparr>)"

text \<open>
  \<^verbatim>\<open>
  class CoordinateRule(Rule, ABC):
      def get_coords(self):
          return self.get_bottom_rule().coords
      def execute_move(self, move):
          self.get_bottom_rule().execute_move(move)
          self.changed(move, undo=False)
      def undo_move(self, move):
          self.get_bottom_rule().undo_move(move)
          self.changed(move, undo=True)
  \<close>
  The bottom rule of a coordinate rule is a tile.
\<close>

definition CoordinateRule_get_coords :: "rule_obj \<Rightarrow> world \<Rightarrow> coords" where
  "CoordinateRule_get_coords self w = tile_coords w (oid (get_bottom_rule self))"

definition CoordinateRule_execute_move :: "rule_obj \<Rightarrow> coord_move \<Rightarrow> world \<Rightarrow> world" where
  "CoordinateRule_execute_move self move w =
     changed self False (Tile_execute_move (get_bottom_rule self) move w)"

definition CoordinateRule_undo_move :: "rule_obj \<Rightarrow> coord_move \<Rightarrow> world \<Rightarrow> world" where
  "CoordinateRule_undo_move self move w =
     changed self True (Tile_undo_move (get_bottom_rule self) move w)"


section \<open>Pattern expansion (PatternRule.generate\_legal\_moves, coordinate\_rule.py)\<close>

text \<open>
  \<^verbatim>\<open>
  def generate_legal_moves(self):
      legal = self.sub_rule.get_legal_moves()
      edge = self.get_step(self.get_coords())
      checked = []
      while edge:
          new_edge = []
          for coords in edge:
              if not self.does_skip(coords) and (coords, self.get_coords()) not in legal:
                  legal.append((coords, self.get_bottom_rule().coords))
              if not self.does_stop_on(coords) and coords not in checked:
                  new_edge.extend(self.get_step(coords))
              checked.append(coords)
          edge = new_edge
      return legal
  \<close>
  \<open>get_step\<close>, \<open>does_stop_on\<close> and \<open>does_skip\<close> are the abstract methods of the
  pattern; \<open>current\<close> is \<open>self.get_coords()\<close>, which the loop does not change.
  \<open>expand_edge\<close> is the \<open>for\<close> loop over one frontier, threading \<open>legal\<close>,
  \<open>checked\<close> and \<open>new_edge\<close>. \<open>expand\<close> is the \<open>while\<close> loop; it need not end
  (a step function that always reaches a fresh coordinate keeps the frontier non-empty),
  and then the result is \<open>None\<close>.
\<close>

fun expand_edge ::
  "(coords \<Rightarrow> coords list) \<Rightarrow> (coords \<Rightarrow> bool) \<Rightarrow> (coords \<Rightarrow> bool) \<Rightarrow> coords \<Rightarrow> coords list
     \<Rightarrow> coord_move list \<times> coords list \<times> coords list
     \<Rightarrow> coord_move list \<times> coords list \<times> coords list" where
  "expand_edge get_step does_stop_on does_skip current [] acc = acc"
| "expand_edge get_step does_stop_on does_skip current (c # edge) (legal, checked, new_edge) =
     expand_edge get_step does_stop_on does_skip current edge
       (if \<not> does_skip c \<and> (c, current, []) \<notin> set legal then legal @ [(c, current, [])] else legal,
        checked @ [c],
        if \<not> does_stop_on c \<and> c \<notin> set checked then new_edge @ get_step c else new_edge)"

partial_function (option) expand ::
  "(coords \<Rightarrow> coords list) \<Rightarrow> (coords \<Rightarrow> bool) \<Rightarrow> (coords \<Rightarrow> bool) \<Rightarrow> coords \<Rightarrow> coords list
     \<Rightarrow> coord_move list \<Rightarrow> coords list \<Rightarrow> coord_move list option" where
  "expand get_step does_stop_on does_skip current edge legal checked =
     (if edge = [] then Some legal
      else case expand_edge get_step does_stop_on does_skip current edge (legal, checked, []) of
             (legal', checked', new_edge) \<Rightarrow>
               expand get_step does_stop_on does_skip current new_edge legal' checked')"

declare expand.simps [code]

definition PatternRule_generate_legal_moves ::
  "(coords \<Rightarrow> coords list) \<Rightarrow> (coords \<Rightarrow> bool) \<Rightarrow> (coords \<Rightarrow> bool) \<Rightarrow> coord_move list \<Rightarrow> coords
     \<Rightarrow> coord_move list option" where
  "PatternRule_generate_legal_moves get_step does_stop_on does_skip sub_legal current =
     expand get_step does_stop_on does_skip current (get_step current) sub_legal []"

text \<open>The destinations of the moves that a pattern rule returns.\<close>

definition destinations :: "coord_move list option \<Rightarrow> coords list" where
  "destinations result = (case result of None \<Rightarrow> [] | Some legal \<Rightarrow> map fst legal)"

text \<open>
  A concrete pattern on the 8 by 8 board, whose cells are \<open>(x, y)\<close> with \<open>x\<close> and
  \<open>y\<close> from \<open>0\<close> to \<open>7\<close>: the step function yields the four axis-aligned unit
  neighbours that lie on the board, expansion stops on the coordinates of the list
  \<open>pieces\<close> (the occupied squares), and no coordinate is skipped. \<open>flood_order\<close> lists
  the 64 cells in the order in which the expansion from \<open>(4, 4)\<close> records them.
\<close>

definition on_board :: "coords \<Rightarrow> bool" where
  "on_board c = (case c of [x, y] \<Rightarrow> 0 \<le> x \<and> x < 8 \<and> 0 \<le> y \<and> y < 8 | _ \<Rightarrow> False)"

definition unit_steps :: "coords \<Rightarrow> coords list" where
  "unit_steps c =
     (case c of
        [x, y] \<Rightarrow> filter on_board [[x + 1, y], [x - 1, y], [x, y + 1], [x, y - 1]]
      | _ \<Rightarrow> [])"

definition occupied :: "coords list \<Rightarrow> coords \<Rightarrow> bool" where
  "occupied pieces c \<longleftrightarrow> c \<in> set pieces"

definition never_skips :: "coords \<Rightarrow> bool" where
  "never_skips c \<longleftrightarrow> False"

definition board :: "coords list" where
  "board = concat (map (\<lambda>x. map (\<lambda>y. [x, y]) [0..7]) [0..7])"

definition flood_order :: "coords list" where
  "flood_order =
     [[5, 4], [3, 4], [4, 5], [4, 3], [6, 4], [4, 4], [5, 5], [5, 3], [2, 4], [3, 5], [3, 3],
      [4, 6], [4, 2], [7, 4], [6, 5], [6, 3], [5, 6], [5, 2], [1, 4], [2, 5], [2, 3],
      [3, 6], [3, 2], [4, 7], [4, 1], [7, 5], [7, 3], [6, 6], [6, 2], [5, 7], [5, 1],
      [0, 4], [1, 5], [1, 3], [2, 6], [2, 2], [3, 7], [3, 1], [4, 0], [7, 6], [7, 2],
      [6, 7], [6, 1], [5, 0], [0, 5], [0, 3], [1, 6], [1, 2], [2, 7], [2, 1], [3, 0],
      [7, 7], [7, 1], [6, 0], [0, 6], [0, 2], [1, 7], [1, 1], [2, 0], [7, 0], [0, 7],
      [0, 1], [1, 0], [0, 0]]"


section \<open>Capturing (CaptureRule, SimpleCapture, coordinate\_rule.py)\<close>




definition NoCapture_generate_legal_moves ::
  "(world, coord_move, 'p, 'v) rule \<Rightarrow> world \<Rightarrow> coord_move list" where
  "NoCapture_generate_legal_moves sub_behaviour w = get_legal_moves sub_behaviour w"










section \<open>Properties of the selection\<close>

lemma max_by_key_loop_keeps:
  assumes "current_max key = Some c"
    and "\<forall>x\<in>set remaining. case x key of None \<Rightarrow> False | Some v \<Rightarrow> v \<le> c"
  shows "max_by_key_loop key current_max remaining = Inr current_max"
  using assms by (induction remaining) (auto split: option.splits)

lemma max_by_key_loop_first_maximum:
  assumes "current_max key = Some c" and "d key = Some m"
    and "\<forall>x\<in>set pre. case x key of None \<Rightarrow> False | Some v \<Rightarrow> v < m"
    and "\<forall>x\<in>set post. case x key of None \<Rightarrow> False | Some v \<Rightarrow> v \<le> m"
    and "c < m \<or> current_max = d"
  shows "max_by_key_loop key current_max (pre @ d # post) = Inr d"
  using assms
proof (induction pre arbitrary: current_max c)
  case Nil
  then show ?case by (auto simp: max_by_key_loop_keeps)
next
  case (Cons x pre)
  from Cons.prems(3) obtain v where v: "x key = Some v" "v < m"
    by (auto split: option.splits)
  have pre: "\<forall>x\<in>set pre. case x key of None \<Rightarrow> False | Some v \<Rightarrow> v < m"
    using Cons.prems(3) by simp
  have step: "max_by_key_loop key cm (pre @ d # post) = Inr d"
    if "cm key = Some c'" and "c' < m \<or> cm = d" for cm c'
    using that(1) Cons.prems(2) pre Cons.prems(4) that(2) by (rule Cons.IH)
  show ?case
  proof (cases "v > c")
    case True
    have "max_by_key_loop key x (pre @ d # post) = Inr d"
      using v by (intro step [of x v]) simp_all
    then show ?thesis using v True Cons.prems(1) by simp
  next
    case False
    have "max_by_key_loop key current_max (pre @ d # post) = Inr d"
      using Cons.prems(1,5) by (intro step [of current_max c]) simp_all
    then show ?thesis using v False Cons.prems(1) by simp
  qed
qed

lemma max_by_key_first_maximum_aux:
  assumes "d key = Some m"
    and "\<forall>x\<in>set pre. case x key of None \<Rightarrow> False | Some v \<Rightarrow> v < m"
    and "\<forall>x\<in>set post. case x key of None \<Rightarrow> False | Some v \<Rightarrow> v \<le> m"
  shows "max_by_key_loop key (hd (pre @ d # post)) (pre @ d # post) = Inr d"
proof (cases pre)
  case Nil
  have "max_by_key_loop key d ([] @ d # post) = Inr d"
    by (rule max_by_key_loop_first_maximum [where c = m and m = m]) (use assms in simp_all)
  then show ?thesis using Nil by simp
next
  case (Cons x pre')
  from assms(2) Cons obtain v where v: "x key = Some v" "v < m"
    by (auto split: option.splits)
  have "max_by_key_loop key x (pre @ d # post) = Inr d"
    by (rule max_by_key_loop_first_maximum [where c = v and m = m]) (use assms v Cons in simp_all)
  then show ?thesis using Cons by simp
qed

text \<open>
  Claim C6. When several candidate vectors share the maximal value at the maximizing
  player's key, \<open>max_by_key\<close> and \<open>dictionary_max\<close> return the first of them in
  enumeration order: if every vector before \<open>d\<close> has a strictly smaller value at the
  key and every vector after \<open>d\<close> has a value that is at most \<open>d\<close>'s (so ties may
  follow), the result is \<open>d\<close>.
\<close>

theorem max_by_key_first_of_ties:
  assumes "d key = Some m"
    and "\<forall>x\<in>set pre. case x key of None \<Rightarrow> False | Some v \<Rightarrow> v < m"
    and "\<forall>x\<in>set post. case x key of None \<Rightarrow> False | Some v \<Rightarrow> v \<le> m"
  shows "max_by_key key (pre @ d # post) = Inr d \<and> dictionary_max key (pre @ d # post) = Inr d"
proof -
  have "max_by_key_loop key (hd (pre @ d # post)) (pre @ d # post) = Inr d"
    using assms by (rule max_by_key_first_maximum_aux)
  then show ?thesis
    by (cases pre) (simp_all add: max_by_key_def dictionary_max_def)
qed

theorem max_by_key_first_of_ties_witness:
  "max_by_key ''A'' [[''A'' \<mapsto> 1 / 10, ''B'' \<mapsto> 9 / 10],
                      [''A'' \<mapsto> 5 / 10, ''B'' \<mapsto> 1 / 10],
                      [''A'' \<mapsto> 5 / 10, ''B'' \<mapsto> 5 / 10 :: rat]]
     = Inr [''A'' \<mapsto> 5 / 10, ''B'' \<mapsto> 1 / 10]
   \<and> dictionary_max ''A'' [[''A'' \<mapsto> 1 / 10, ''B'' \<mapsto> 9 / 10],
                      [''A'' \<mapsto> 5 / 10, ''B'' \<mapsto> 1 / 10],
                      [''A'' \<mapsto> 5 / 10, ''B'' \<mapsto> 5 / 10 :: rat]]
     = Inr [''A'' \<mapsto> 5 / 10, ''B'' \<mapsto> 1 / 10]"
  using max_by_key_first_of_ties
    [where d = "[''A'' \<mapsto> 5 / 10, ''B'' \<mapsto> 1 / 10 :: rat]" and key = "''A''" and m = "5 / 10"
       and pre = "[[''A'' \<mapsto> 1 / 10, ''B'' \<mapsto> 9 / 10]]"
       and post = "[[''A'' \<mapsto> 5 / 10, ''B'' \<mapsto> 5 / 10]]"]
  by simp

section \<open>Properties of the n-max search\<close>

lemma max_by_key_loop_not_IndexError: "max_by_key_loop key c ds \<noteq> Inl IndexError"
  by (induction ds arbitrary: c) (auto split: option.splits)

lemma max_by_key_IndexError_iff: "max_by_key key ds = Inl IndexError \<longleftrightarrow> ds = []"
  by (cases ds) (simp_all add: max_by_key_def max_by_key_loop_not_IndexError del: max_by_key_loop.simps)

lemma max_by_key_loop_member:
  assumes "\<forall>d\<in>set ds. d key \<noteq> None" and "c key \<noteq> None"
  shows "\<exists>d\<in>set (c # ds). max_by_key_loop key c ds = Inr d"
  using assms
proof (induction ds arbitrary: c)
  case Nil
  then show ?case by simp
next
  case (Cons x ds)
  then obtain v cv where v: "x key = Some v" "c key = Some cv" by auto
  have "\<exists>d\<in>set ((if v > cv then x else c) # ds).
          max_by_key_loop key (if v > cv then x else c) ds = Inr d"
    using Cons.prems v by (intro Cons.IH) auto
  then show ?case using v by auto
qed

lemma for_each_length:
  "for_each body ms s = Inr (as, s') \<Longrightarrow> length as = length ms"
  by (induction ms arbitrary: s as s') (auto split: sum.splits prod.splits)

lemma for_each_no_error:
  assumes "\<And>m s. m \<in> set ms \<Longrightarrow> body m s \<noteq> Inl e"
  shows "for_each body ms s \<noteq> Inl e"
  using assms by (induction ms arbitrary: s) (auto split: sum.splits prod.splits)

lemma max_n_unpruned:
  "max_n self rng depth None temp k s =
     (if depth = 0 \<or> get_legal_moves self (fst s) = [] then
        (case get_utility self (fst s) of Inl e \<Rightarrow> Inl e | Inr u \<Rightarrow> Inr (u, s))
      else
        (case for_each (explore_move self (max_n self rng (depth - 1) None temp 1))
                (get_legal_moves self (fst s)) s of
           Inl e \<Rightarrow> Inl e
         | Inr (utilities, s'') \<Rightarrow>
             (case max_by_key (case self_player self (fst s) of Some p \<Rightarrow> p | None \<Rightarrow> bottom_player self (fst s)) utilities of
                Inl e \<Rightarrow> Inl e
              | Inr u \<Rightarrow> Inr (u, s''))))"
  by (subst max_n.simps) (simp add: Let_def)

lemma explore_move_no_IndexError:
  assumes "\<And>s. search s \<noteq> Inl IndexError"
  shows "explore_move self search m s \<noteq> Inl IndexError"
  using assms [of "(execute_move self m (fst s), snd s)"]
  by (auto simp: explore_move_def split: sum.splits prod.splits)

lemma evaluate_no_IndexError:
  assumes "\<And>s. search s \<noteq> Inl IndexError"
  shows "evaluate self search player m s \<noteq> Inl IndexError"
  using assms [of "(execute_move self m (fst s), snd s)"]
  by (auto simp: evaluate_def split: sum.splits prod.splits option.splits)

lemma prune_no_IndexError:
  assumes "\<And>s. search s \<noteq> Inl IndexError"
    and "\<And>ms n g. sample rng ms n g \<noteq> Inl IndexError"
  shows "prune self rng search temp wd player legal s \<noteq> Inl IndexError"
proof -
  have "for_each (evaluate self search player) legal s' \<noteq> Inl IndexError" for s'
    by (rule for_each_no_error) (rule evaluate_no_IndexError, rule assms(1))
  then show ?thesis
    using assms(2)
    by (auto simp: prune_def split: sum.splits prod.splits)
qed

lemma max_n_body_no_IndexError:
  assumes util: "\<And>w. get_utility self w \<noteq> Inl IndexError"
    and pr: "pruned \<noteq> Inl IndexError"
    and rec: "\<And>s. depth \<noteq> 0 \<Longrightarrow> search s \<noteq> Inl IndexError"
  shows "(case pruned of
           Inl e \<Rightarrow> Inl e
         | Inr (legal', s') \<Rightarrow>
             if depth = (0::nat) \<or> legal' = [] then
               (case get_utility self (fst s') of
                  Inl e \<Rightarrow> Inl e
                | Inr u \<Rightarrow> Inr (u, s'))
             else
               (case for_each (explore_move self search) legal' s' of
                  Inl e \<Rightarrow> Inl e
                | Inr (utilities, s'') \<Rightarrow>
                    (case max_by_key player utilities of
                       Inl e \<Rightarrow> Inl e
                     | Inr u \<Rightarrow> Inr (u, s'')))) \<noteq> Inl IndexError"
proof (cases pruned)
  case (Inl e)
  then show ?thesis using pr by simp
next
  case (Inr p)
  obtain legal' s' where p: "p = (legal', s')" by (cases p)
  show ?thesis
  proof (cases "depth = 0 \<or> legal' = []")
    case True
    then show ?thesis using Inr p util [of "fst s'"] by (auto split: sum.splits)
  next
    case False
    then have ne: "legal' \<noteq> []" and d: "depth \<noteq> 0" by simp_all
    have fe: "for_each (explore_move self search) legal' s' \<noteq> Inl IndexError"
      by (rule for_each_no_error) (rule explore_move_no_IndexError, rule rec, rule d)
    show ?thesis
    proof (cases "for_each (explore_move self search) legal' s'")
      case (Inl e)
      then show ?thesis using Inr p False fe by auto
    next
      case (Inr q)
      obtain us s'' where q: "q = (us, s'')" by (cases q)
      have "length us = length legal'" using Inr q by (auto dest: for_each_length)
      then have "us \<noteq> []" using ne by auto
      then have "max_by_key player us \<noteq> Inl IndexError"
        by (simp add: max_by_key_IndexError_iff)
      then show ?thesis using \<open>pruned = Inr p\<close> p False Inr q by (auto split: sum.splits)
    qed
  qed
qed

lemma max_n_unpruned_no_IndexError:
  assumes util: "\<And>w. get_utility self w \<noteq> Inl IndexError"
  shows "max_n self rng depth None temp k s \<noteq> Inl IndexError"
proof (induction depth arbitrary: temp k s)
  case 0
  show ?case using util [of "fst s"] by (subst max_n.simps) (auto simp: Let_def split: sum.splits)
next
  case (Suc depth)
  show ?case
    apply (subst max_n.simps)
    apply (simp only: Let_def option.case)
    apply (rule max_n_body_no_IndexError)
      apply (rule util)
     apply simp
    apply (simp only: diff_Suc_1)
    apply (rule Suc.IH)
    done
qed

lemma pruned_no_IndexError:
  assumes util: "\<And>w. get_utility self w \<noteq> Inl IndexError"
    and smp: "\<And>ms n g. sample rng ms n g \<noteq> Inl IndexError"
  shows "(case width of
            None \<Rightarrow> Inr (legal, s)
          | Some wd \<Rightarrow>
              if wd \<noteq> 0 \<and> wd < int (length legal)
              then prune self rng (\<lambda>s'. max_n self rng k None 1 1 s') temp wd player legal s
              else Inr (legal, s)) \<noteq> Inl IndexError"
proof (cases width)
  case None
  then show ?thesis by simp
next
  case (Some wd)
  have "prune self rng (\<lambda>s'. max_n self rng k None 1 1 s') temp wd player legal s \<noteq> Inl IndexError"
    by (rule prune_no_IndexError) (rule max_n_unpruned_no_IndexError, rule util, rule smp)
  then show ?thesis using Some by simp
qed

lemma max_n_no_IndexError:
  assumes util: "\<And>w. get_utility self w \<noteq> Inl IndexError"
    and smp: "\<And>ms n g. sample rng ms n g \<noteq> Inl IndexError"
  shows "max_n self rng depth width temp k s \<noteq> Inl IndexError"
proof (induction depth arbitrary: k s)
  case 0
  show ?case
    apply (subst max_n.simps)
    apply (simp only: Let_def)
    apply (rule max_n_body_no_IndexError)
      apply (rule util)
     apply (rule pruned_no_IndexError, rule util, rule smp)
    apply simp
    done
next
  case (Suc depth)
  show ?case
    apply (subst max_n.simps)
    apply (simp only: Let_def)
    apply (rule max_n_body_no_IndexError)
      apply (rule util)
     apply (rule pruned_no_IndexError, rule util, rule smp)
    apply (simp only: diff_Suc_1)
    apply (rule Suc.IH)
    done
qed

lemma for_each_map:
  assumes "\<And>m. m \<in> set ms \<Longrightarrow> body m s = Inr (f m, s)"
  shows "for_each body ms s = Inr (map f ms, s)"
  using assms by (induction ms) auto

lemma max_by_key_strict_maximum:
  assumes d: "d \<in> set ds" "d key = Some m"
    and others: "\<forall>x\<in>set ds. x \<noteq> d \<longrightarrow> (case x key of None \<Rightarrow> False | Some v \<Rightarrow> v < m)"
  shows "max_by_key key ds = Inr d"
proof -
  from d(1) obtain pre post where split: "ds = pre @ d # post" "d \<notin> set pre"
    by (auto dest: split_list_first)
  have pre: "\<forall>x\<in>set pre. case x key of None \<Rightarrow> False | Some v \<Rightarrow> v < m"
    using others split by auto
  have post: "\<forall>x\<in>set post. case x key of None \<Rightarrow> False | Some v \<Rightarrow> v \<le> m"
  proof
    fix x assume "x \<in> set post"
    then have "x \<in> set ds" using split by simp
    then show "case x key of None \<Rightarrow> False | Some v \<Rightarrow> v \<le> m"
      using others d(2) by (cases "x = d") (force split: option.splits)+
  qed
  have "max_by_key_loop key (hd (pre @ d # post)) (pre @ d # post) = Inr d"
    using d(2) pre post by (rule max_by_key_first_maximum_aux)
  then show ?thesis
    unfolding split(1) by (cases pre) (simp_all add: max_by_key_def)
qed

lemma max_n_depth_0_unpruned:
  "max_n self rng 0 None temp k s =
     (case get_utility self (fst s) of Inl e \<Rightarrow> Inl e | Inr u \<Rightarrow> Inr (u, s))"
  by (simp add: max_n_unpruned)

text \<open>
  Claim C3. Player \<open>A\<close> is to move at the root, the positions after the legal moves have
  the terminal utility vectors \<open>{A: 0.2, B: 0.8}\<close>, \<open>{A: 0.6, B: 0.4}\<close> and
  \<open>{A: 0.9, B: 0.1}\<close> (in any order of the moves), and undoing a move restores the root.
  Then the search at depth 1 without width pruning returns the whole vector
  \<open>{A: 0.9, B: 0.1}\<close>, the one that maximizes \<open>A\<close>'s own entry (\<open>B\<close>'s largest value
  is in the first vector), and leaves the rule state and the generator as they were.
\<close>

theorem max_n_depth_one_maximizes_own_value:
  fixes self :: "('w, 'm, 'p, rat) rule"
  assumes player: "(case self_player self w of Some p \<Rightarrow> p | None \<Rightarrow> bottom_player self w) = A"
    and AB: "A \<noteq> B"
    and utils: "set (map (\<lambda>m. get_utility self (execute_move self m w)) (get_legal_moves self w)) =
        {Inr [A \<mapsto> 2 / 10, B \<mapsto> 8 / 10], Inr [A \<mapsto> 6 / 10, B \<mapsto> 4 / 10], Inr [A \<mapsto> 9 / 10, B \<mapsto> 1 / 10]}"
    and undo: "\<forall>m\<in>set (get_legal_moves self w). undo_move self m (execute_move self m w) = w"
  shows "max_n self rng 1 None temp k (w, g) = Inr ([A \<mapsto> 9 / 10, B \<mapsto> 1 / 10], w, g)"
proof -
  let ?legal = "get_legal_moves self w"
  let ?u1 = "[A \<mapsto> 2 / 10, B \<mapsto> 8 / 10 :: rat]"
  let ?u2 = "[A \<mapsto> 6 / 10, B \<mapsto> 4 / 10 :: rat]"
  let ?u3 = "[A \<mapsto> 9 / 10, B \<mapsto> 1 / 10 :: rat]"
  let ?child = "\<lambda>m. projr (get_utility self (execute_move self m w))"
  have each: "get_utility self (execute_move self m w) \<in> {Inr ?u1, Inr ?u2, Inr ?u3}"
    if "m \<in> set ?legal" for m
    using that utils by (metis (no_types, lifting) image_eqI set_map)
  have body: "explore_move self (max_n self rng 0 None temp 1) m (w, g) = Inr (?child m, w, g)"
    if "m \<in> set ?legal" for m
    using each [OF that] undo that
    by (auto simp: explore_move_def max_n_depth_0_unpruned)
  have loop: "for_each (explore_move self (max_n self rng 0 None temp 1)) ?legal (w, g)
      = Inr (map ?child ?legal, w, g)"
    by (rule for_each_map) (rule body)
  have ne: "?legal \<noteq> []" using utils by auto
  have set_us: "set (map ?child ?legal) = {?u1, ?u2, ?u3}"
  proof -
    have "set (map ?child ?legal) = projr ` set (map (\<lambda>m. get_utility self (execute_move self m w)) ?legal)"
      by (simp add: image_image)
    then show ?thesis unfolding utils by simp
  qed
  have neq: "?u1 \<noteq> ?u3" "?u2 \<noteq> ?u3"
    using AB by (auto simp: fun_eq_iff split: if_splits dest: fun_cong [where x = A])
  have "max_by_key A (map ?child ?legal) = Inr ?u3"
  proof (rule max_by_key_strict_maximum [where m = "9 / 10"])
    show "?u3 \<in> set (map ?child ?legal)" unfolding set_us by simp
    show "?u3 A = Some (9 / 10)" using AB by simp
    show "\<forall>x\<in>set (map ?child ?legal). x \<noteq> ?u3 \<longrightarrow> (case x A of None \<Rightarrow> False | Some v \<Rightarrow> v < 9 / 10)"
      unfolding set_us using AB by auto
  qed
  then show ?thesis
    using loop ne player by (simp add: max_n_unpruned cong: option.case_cong)
qed











theorem max_n_depth_one_maximizes_own_value_witness:
  "max_n three_moves (constant_rng 0) 1 None 1 1 (0, ())
     = Inr ([''A'' \<mapsto> 9 / 10, ''B'' \<mapsto> 1 / 10], 0, ())"
  using max_n_depth_one_maximizes_own_value
    [where self = three_moves and w = 0 and A = "''A''" and B = "''B''"
       and rng = "constant_rng 0" and temp = 1 and k = 1 and g = "()"]
  by (simp add: three_moves_def)

text \<open>
  Claim C10. The selection fails with IndexError on the empty list; on a non-empty list
  of dictionaries that hold the key (the documented parameter: "a key in the dictionary")
  it returns an element of the list. So \<open>RuleSum.get_utility\<close> fails when the aggregate
  owns no sibling rules. The n-max search calls the selection only on the utilities of a
  non-empty list of moves: when neither \<open>get_utility\<close> nor \<open>sample\<close> raises IndexError,
  the search does not raise it either.
\<close>

theorem selection_needs_nonempty_list:
  fixes self :: "('w, 'm, 'p, 'v::linorder) rule"
  shows
  "max_by_key key [] = Inl IndexError \<and> dictionary_max key [] = Inl IndexError
   \<and> (ds \<noteq> [] \<and> (\<forall>d\<in>set ds. d key \<noteq> None) \<longrightarrow>
        (\<exists>d\<in>set ds. max_by_key key ds = Inr d \<and> dictionary_max key ds = Inr d))
   \<and> RuleSum_get_utility player ([] :: ('w, 'm, 'p, 'v) rule list) w = Inl IndexError
   \<and> ((\<forall>w. get_utility self w \<noteq> Inl IndexError) \<and> (\<forall>ms n g. sample rng ms n g \<noteq> Inl IndexError) \<longrightarrow>
        max_n self rng depth width temp k s \<noteq> Inl IndexError)"
proof -
  have "\<exists>d\<in>set ds. max_by_key key ds = Inr d \<and> dictionary_max key ds = Inr d"
    if "ds \<noteq> []" "\<forall>d\<in>set ds. d key \<noteq> None"
  proof -
    from that obtain x xs where ds: "ds = x # xs" by (cases ds) auto
    have "\<exists>d\<in>set (x # ds). max_by_key_loop key x ds = Inr d"
      using that ds by (intro max_by_key_loop_member) auto
    then show ?thesis using ds by (auto simp: max_by_key_def dictionary_max_def)
  qed
  moreover have "max_n self rng depth width temp k s \<noteq> Inl IndexError"
    if "\<forall>w. get_utility self w \<noteq> Inl IndexError" "\<forall>ms n g. sample rng ms n g \<noteq> Inl IndexError"
    using that by (intro max_n_no_IndexError) auto
  ultimately show ?thesis
    by (simp add: max_by_key_def dictionary_max_def RuleSum_get_utility_def)
qed

theorem selection_needs_nonempty_list_witness:
  "[[''A'' \<mapsto> 1 / 10 :: rat]] \<noteq> []
   \<and> [''A'' \<mapsto> 1 / 10 :: rat] ''A'' \<noteq> None
   \<and> (\<exists>d\<in>set [[''A'' \<mapsto> 1 / 10 :: rat]].
         max_by_key ''A'' [[''A'' \<mapsto> 1 / 10 :: rat]] = Inr d
         \<and> dictionary_max ''A'' [[''A'' \<mapsto> 1 / 10 :: rat]] = Inr d)
   \<and> (\<forall>w. get_utility three_moves w \<noteq> Inl IndexError)
   \<and> (\<forall>ms n g. sample (constant_rng 0) ms n g \<noteq> Inl IndexError)
   \<and> max_n three_moves (constant_rng 0) 2 (Some 2) 0 1 (0, ()) \<noteq> Inl IndexError"
proof -
  let ?ds = "[[''A'' \<mapsto> 1 / 10 :: rat]]"
  have ds: "?ds \<noteq> [] \<and> (\<forall>d\<in>set ?ds. d ''A'' \<noteq> None)" by simp
  have util: "\<forall>w. get_utility three_moves w \<noteq> Inl IndexError"
    by (simp add: three_moves_def)
  have smp: "\<forall>ms n g. sample (constant_rng 0) ms n g \<noteq> Inl IndexError"
    by (simp add: constant_rng_def)
  have inst: "(?ds \<noteq> [] \<and> (\<forall>d\<in>set ?ds. d ''A'' \<noteq> None) \<longrightarrow>
        (\<exists>d\<in>set ?ds. max_by_key ''A'' ?ds = Inr d \<and> dictionary_max ''A'' ?ds = Inr d))
     \<and> ((\<forall>w. get_utility three_moves w \<noteq> Inl IndexError)
          \<and> (\<forall>ms n g. sample (constant_rng 0) ms n g \<noteq> Inl IndexError) \<longrightarrow>
        max_n three_moves (constant_rng 0) 2 (Some 2) 0 1 (0, ()) \<noteq> Inl IndexError)"
    using selection_needs_nonempty_list
      [where ds = ?ds and key = "''A''" and self = three_moves
         and rng = "constant_rng 0" and depth = 2 and width = "Some 2" and temp = 0 and k = 1
         and s = "(0, ())"]
    by blast
  have key: "[''A'' \<mapsto> 1 / 10 :: rat] ''A'' \<noteq> None" by simp
  have sel: "\<exists>d\<in>set ?ds. max_by_key ''A'' ?ds = Inr d \<and> dictionary_max ''A'' ?ds = Inr d"
    by (rule inst [THEN conjunct1, THEN mp, OF ds])
  have srch: "max_n three_moves (constant_rng 0) 2 (Some 2) 0 1 (0, ()) \<noteq> Inl IndexError"
    by (rule inst [THEN conjunct2, THEN mp, OF conjI [OF util smp]])
  show ?thesis using ds [THEN conjunct1] key sel util smp srch by (intro conjI)
qed

















section \<open>Properties of the sequencer\<close>

lemma py_mod_range:
  assumes "xs \<noteq> []"
  shows "py_mod a (int (length xs)) = Inr (a mod int (length xs))"
    and "0 \<le> a mod int (length xs)" and "a mod int (length xs) < int (length xs)"
  using assms by (simp_all add: py_mod_def)

lemma py_index_in_range:
  assumes "0 \<le> i" and "i < int (length xs)"
  shows "py_index xs i = Inr (xs ! nat i)"
  using assms by (simp add: py_index_def Let_def)

lemma SimpleTurn_init_eq:
  assumes "sub_rules \<noteq> []"
  shows "SimpleTurn_init add_pieces gs sub_rules t =
    Inr \<lparr>sequence = sub_rules, turn = t mod int (length sub_rules), sub_rule = sub_rules ! 0,
         rest = add_pieces gs\<rparr>"
  using assms by (simp add: SimpleTurn_init_def and_then_def py_mod_def py_index_def)

lemma SimpleTurn_execute_move_eq:
  assumes "sequence st \<noteq> []"
  shows "SimpleTurn_execute_move rules move st =
     Inr (case move of
            None \<Rightarrow> st\<lparr>turn := (turn st + 1) mod int (length (sequence st)),
                        sub_rule := sequence st ! nat ((turn st + 1) mod int (length (sequence st)))\<rparr>
          | Some (r, m) \<Rightarrow>
              execute_move (rules r) m
                (st\<lparr>turn := (turn st + 1) mod int (length (sequence st)),
                    sub_rule := sequence st ! nat ((turn st + 1) mod int (length (sequence st)))\<rparr>))"
  using assms
  by (simp add: SimpleTurn_execute_move_def and_then_def py_mod_range py_index_in_range Let_def)

lemma SimpleTurn_undo_move_eq:
  assumes "sequence st1 \<noteq> []"
    and "st1 = (case move of None \<Rightarrow> st | Some (r, m) \<Rightarrow> undo_move (rules r) m st)"
  shows "SimpleTurn_undo_move rules move st =
     Inr (st1\<lparr>turn := (turn st1 - 1) mod int (length (sequence st1)),
              sub_rule := sequence st1 ! nat ((turn st1 - 1) mod int (length (sequence st1)))\<rparr>)"
  using assms(1) unfolding assms(2)
  by (simp add: SimpleTurn_undo_move_def and_then_def py_mod_range py_index_in_range Let_def)

text \<open>
  Claim C9. Constructed over \<open>N > 0\<close> sub-rules with the argument \<open>t\<close>, a \<open>SimpleTurn\<close>
  stores the index \<open>t mod N\<close> and the active sub-rule \<open>sequence[0]\<close>, whatever \<open>t\<close> is
  (with no sub-rule the constructor raises ZeroDivisionError). The active sub-rule is
  the one at the index when \<open>t mod N = 0\<close>, and, the sub-rules being distinct objects,
  only then.
\<close>

theorem SimpleTurn_init_active_sub_rule:
  "SimpleTurn_init add_pieces gs [] t = Inl ZeroDivisionError
   \<and> (sub_rules \<noteq> [] \<longrightarrow>
        SimpleTurn_init add_pieces gs sub_rules t =
          Inr \<lparr>sequence = sub_rules, turn = t mod int (length sub_rules),
               sub_rule = sub_rules ! 0, rest = add_pieces gs\<rparr>
        \<and> (t mod int (length sub_rules) = 0 \<longrightarrow>
              sub_rules ! 0 = sub_rules ! nat (t mod int (length sub_rules)))
        \<and> (distinct sub_rules \<longrightarrow>
              (sub_rules ! 0 = sub_rules ! nat (t mod int (length sub_rules)))
                = (t mod int (length sub_rules) = 0)))"
proof -
  have "(sub_rules ! 0 = sub_rules ! nat (t mod int (length sub_rules)))
          = (t mod int (length sub_rules) = 0)"
    if ne: "sub_rules \<noteq> []" and d: "distinct sub_rules"
  proof -
    have bounds: "t mod int (length sub_rules) < int (length sub_rules)"
      "0 \<le> t mod int (length sub_rules)" using ne by simp_all
    then have "nat (t mod int (length sub_rules)) < length sub_rules"
      by (simp add: nat_less_iff)
    moreover have "0 < length sub_rules" using ne by simp
    ultimately have "(sub_rules ! 0 = sub_rules ! nat (t mod int (length sub_rules)))
        = (0 = nat (t mod int (length sub_rules)))"
      using d by (simp add: nth_eq_iff_index_eq)
    also have "\<dots> = (t mod int (length sub_rules) = 0)" using bounds(2) by linarith
    finally show ?thesis .
  qed
  then show ?thesis
    by (auto simp: SimpleTurn_init_eq) (simp add: SimpleTurn_init_def and_then_def py_mod_def)
qed

theorem SimpleTurn_init_active_sub_rule_witness:
  "[''x'', ''y'', ''z''] \<noteq> [] \<and> distinct [''x'', ''y'', ''z'']
   \<and> SimpleTurn_init id (0::int) [''x'', ''y'', ''z''] 4 =
        Inr \<lparr>sequence = [''x'', ''y'', ''z''], turn = 1, sub_rule = ''x'', rest = 0\<rparr>
   \<and> [''x'', ''y'', ''z''] ! 0 \<noteq> [''x'', ''y'', ''z''] ! nat 1"
  using SimpleTurn_init_active_sub_rule
    [where sub_rules = "[''x'', ''y'', ''z'']" and t = 4 and add_pieces = id and gs = "0::int"]
  by auto

text \<open>
  Claim C7. Over three sub-rules and at index 0, \<open>execute_move()\<close> with no sub-move
  moves to index 1 and the sub-rule at index 1, and \<open>undo_move()\<close> with no sub-move then
  returns the index to 0 and the active sub-rule to the one at index 0; nothing else
  changes.
\<close>

theorem SimpleTurn_pass_round_trip:
  assumes "length (sequence st) = 3" and "turn st = 0"
  shows "SimpleTurn_execute_move rules None st =
           Inr (st\<lparr>turn := 1, sub_rule := sequence st ! 1\<rparr>)
       \<and> and_then (SimpleTurn_execute_move rules None st) (SimpleTurn_undo_move rules None) =
           Inr (st\<lparr>turn := 0, sub_rule := sequence st ! 0\<rparr>)"
proof -
  have ne: "sequence st \<noteq> []" using assms(1) by auto
  have ex: "SimpleTurn_execute_move rules None st =
           Inr (st\<lparr>turn := 1, sub_rule := sequence st ! 1\<rparr>)"
    using assms by (simp add: SimpleTurn_execute_move_eq [OF ne])
  have un: "SimpleTurn_undo_move rules None (st\<lparr>turn := 1, sub_rule := sequence st ! 1\<rparr>) =
           Inr (st\<lparr>turn := 0, sub_rule := sequence st ! 0\<rparr>)"
    using assms ne
    by (subst SimpleTurn_undo_move_eq [where ?st1.0 = "st\<lparr>turn := 1, sub_rule := sequence st ! 1\<rparr>"])
       simp_all
  show ?thesis using ex un by (simp add: and_then_def)
qed

theorem SimpleTurn_pass_round_trip_witness:
  "length (sequence \<lparr>sequence = [''x'', ''y'', ''z''], turn = 0, sub_rule = ''x'', rest = (5::int)\<rparr>) = 3
   \<and> and_then (SimpleTurn_execute_move counters None
                 \<lparr>sequence = [''x'', ''y'', ''z''], turn = 0, sub_rule = ''x'', rest = 5\<rparr>)
        (SimpleTurn_undo_move counters None)
       = Inr \<lparr>sequence = [''x'', ''y'', ''z''], turn = 0, sub_rule = ''x'', rest = 5\<rparr>"
  using SimpleTurn_pass_round_trip
    [where st = "\<lparr>sequence = [''x'', ''y'', ''z''], turn = 0, sub_rule = ''x'', rest = (5::int)\<rparr>"
       and rules = counters]
  by auto

lemma turn_in_range_mod:
  assumes "sequence st \<noteq> []"
  shows "turn_in_range (st\<lparr>turn := a mod int (length (sequence st)), sub_rule := r\<rparr>)"
  using assms by (simp add: turn_in_range_def)

text \<open>
  Claim C5. The index of a sequencer over \<open>N\<close> sub-rules is in \<open>[0, N)\<close>: after construction;
  \<open>execute_move\<close> sets it to \<open>(index + 1) mod N\<close> and applies the delegated sub-move to the
  state that already holds the new index; \<open>undo_move\<close> applies the delegated inverse first
  and then sets the index to \<open>(index - 1) mod N\<close>, which is never negative and is
  \<open>N - 1\<close> when the index was 0. So when the sub-rules leave the sequencer's index and
  sequence alone, both operations succeed and end with the index in range.
\<close>

theorem SimpleTurn_turn_index_in_range:
  fixes st :: "('r, 'x) simple_turn"
    and rules :: "'r \<Rightarrow> (('r, 'x) simple_turn, 'm, 'p, 'v) rule"
    and move :: "('r \<times> 'm) option"
  defines "N \<equiv> int (length (sequence st))"
    and "advanced \<equiv> st\<lparr>turn := (turn st + 1) mod int (length (sequence st)),
                         sub_rule := sequence st ! nat ((turn st + 1) mod int (length (sequence st)))\<rparr>"
    and "undone \<equiv> (case move of None \<Rightarrow> st | Some (r, m) \<Rightarrow> undo_move (rules r) m st)"
  shows
    "(sub_rules \<noteq> [] \<longrightarrow>
        (\<exists>st0. SimpleTurn_init add_pieces gs sub_rules t = Inr st0 \<and> turn_in_range st0))
     \<and> (sequence st \<noteq> [] \<longrightarrow>
          SimpleTurn_execute_move rules move st =
            Inr (case move of None \<Rightarrow> advanced | Some (r, m) \<Rightarrow> execute_move (rules r) m advanced)
          \<and> turn advanced = (turn st + 1) mod N \<and> turn_in_range advanced)
     \<and> (sequence undone \<noteq> [] \<longrightarrow>
          (\<exists>st'. SimpleTurn_undo_move rules move st = Inr st'
             \<and> st' = undone\<lparr>turn := (turn undone - 1) mod int (length (sequence undone)),
                            sub_rule := sequence undone ! nat ((turn undone - 1) mod int (length (sequence undone)))\<rparr>
             \<and> turn_in_range st' \<and> 0 \<le> turn st'
             \<and> (turn undone = 0 \<longrightarrow> turn st' = int (length (sequence undone)) - 1)))
     \<and> (keeps_sequencer rules \<and> sequence st \<noteq> [] \<longrightarrow>
          (\<exists>st'. SimpleTurn_execute_move rules move st = Inr st' \<and> turn_in_range st')
          \<and> (\<exists>st'. SimpleTurn_undo_move rules move st = Inr st' \<and> turn_in_range st'))"
proof (intro conjI impI)
  assume "sub_rules \<noteq> []"
  then show "\<exists>st0. SimpleTurn_init add_pieces gs sub_rules t = Inr st0 \<and> turn_in_range st0"
    by (simp add: SimpleTurn_init_eq turn_in_range_def)
next
  assume ne: "sequence st \<noteq> []"
  show "SimpleTurn_execute_move rules move st =
      Inr (case move of None \<Rightarrow> advanced | Some (r, m) \<Rightarrow> execute_move (rules r) m advanced)"
    unfolding advanced_def by (rule SimpleTurn_execute_move_eq [OF ne])
  show "turn advanced = (turn st + 1) mod N" by (simp add: advanced_def N_def)
  show "turn_in_range advanced" unfolding advanced_def by (rule turn_in_range_mod [OF ne])
next
  assume ne: "sequence undone \<noteq> []"
  let ?st' = "undone\<lparr>turn := (turn undone - 1) mod int (length (sequence undone)),
                       sub_rule := sequence undone ! nat ((turn undone - 1) mod int (length (sequence undone)))\<rparr>"
  have eq: "SimpleTurn_undo_move rules move st = Inr ?st'"
    by (rule SimpleTurn_undo_move_eq [OF ne]) (simp add: undone_def)
  have range: "turn_in_range ?st'" by (rule turn_in_range_mod [OF ne])
  have zero: "turn ?st' = int (length (sequence undone)) - 1" if "turn undone = 0"
  proof -
    have "0 < int (length (sequence undone))" using ne by simp
    then have "(- 1) mod int (length (sequence undone)) = int (length (sequence undone)) - 1"
      by (simp add: zmod_minus1)
    then show ?thesis using that by simp
  qed
  show "\<exists>st'. SimpleTurn_undo_move rules move st = Inr st' \<and> st' = ?st'
      \<and> turn_in_range st' \<and> 0 \<le> turn st'
      \<and> (turn undone = 0 \<longrightarrow> turn st' = int (length (sequence undone)) - 1)"
    using eq range zero by (auto simp: turn_in_range_def)
next
  assume a: "keeps_sequencer rules \<and> sequence st \<noteq> []"
  then have ne: "sequence st \<noteq> []" and keep: "keeps_sequencer rules" by simp_all
  have "turn_in_range advanced" unfolding advanced_def by (rule turn_in_range_mod [OF ne])
  then have "turn_in_range (case move of None \<Rightarrow> advanced | Some (r, m) \<Rightarrow> execute_move (rules r) m advanced)"
    using keep by (auto simp: turn_in_range_def keeps_sequencer_def split: option.splits)
  then show "\<exists>st'. SimpleTurn_execute_move rules move st = Inr st' \<and> turn_in_range st'"
    unfolding advanced_def by (simp add: SimpleTurn_execute_move_eq [OF ne])
  have ne': "sequence undone \<noteq> []"
    using keep ne by (auto simp: undone_def keeps_sequencer_def split: option.splits)
  show "\<exists>st'. SimpleTurn_undo_move rules move st = Inr st' \<and> turn_in_range st'"
    using SimpleTurn_undo_move_eq [OF ne', where move = move and st = st and rules = rules]
      turn_in_range_mod [OF ne']
    by (simp add: undone_def)
qed

lemma keeps_sequencer_counters: "keeps_sequencer counters"
  by (simp add: keeps_sequencer_def counters_def)

theorem SimpleTurn_turn_index_in_range_witness:
  "[''x'', ''y'', ''z''] \<noteq> []
   \<and> keeps_sequencer counters
   \<and> sequence \<lparr>sequence = [''x'', ''y'', ''z''], turn = 0, sub_rule = ''x'', rest = (5::int)\<rparr> \<noteq> []
   \<and> (\<exists>st0. SimpleTurn_init id (5::int) [''x'', ''y'', ''z''] (- 1) = Inr st0 \<and> turn_in_range st0)
   \<and> (\<exists>st'. SimpleTurn_undo_move counters (Some (''z'', 5))
               \<lparr>sequence = [''x'', ''y'', ''z''], turn = 0, sub_rule = ''x'', rest = (5::int)\<rparr> = Inr st'
             \<and> turn_in_range st')"
proof -
  let ?st = "\<lparr>sequence = [''x'', ''y'', ''z''], turn = 0, sub_rule = ''x'', rest = (5::int)\<rparr>"
  note t = SimpleTurn_turn_index_in_range
    [where sub_rules = "[''x'', ''y'', ''z'']" and add_pieces = id and gs = "5::int" and t = "- 1"
       and st = ?st and rules = counters and move = "Some (''z'', 5)"]
  have ne: "[''x'', ''y'', ''z''] \<noteq> []" by simp
  have ne': "sequence ?st \<noteq> []" by simp
  have a: "\<exists>st0. SimpleTurn_init id (5::int) [''x'', ''y'', ''z''] (- 1) = Inr st0 \<and> turn_in_range st0"
    by (rule t [THEN conjunct1, THEN mp, OF ne])
  have b: "\<exists>st'. SimpleTurn_undo_move counters (Some (''z'', 5)) ?st = Inr st' \<and> turn_in_range st'"
    by (rule t [THEN conjunct2, THEN conjunct2, THEN conjunct2, THEN mp,
                OF conjI [OF keeps_sequencer_counters ne'], THEN conjunct2])
  show ?thesis using ne keeps_sequencer_counters ne' a b by (intro conjI)
qed

lemma SimpleTurn_legal_tag:
  "(r, m) \<in> set (SimpleTurn_get_legal_moves rules st) \<Longrightarrow> r = sub_rule st"
  by (auto simp: SimpleTurn_get_legal_moves_def)

text \<open>
  Claim C1, on the sequencer. A \<open>SimpleTurn\<close> constructed with \<open>turn\<close> not a multiple of
  \<open>N\<close> starts with the active sub-rule \<open>sequence[0]\<close>, while \<open>undo_move\<close> leaves
  \<open>sequence[turn]\<close> active. Executing and undoing a legal move of the fresh object
  therefore changes the active sub-rule, the move is no longer legal, and the set of
  legal moves differs from the one before.
\<close>

theorem SimpleTurn_started_off_zero_not_reversible:
  assumes init: "SimpleTurn_init add_pieces gs sub_rules t = Inr st"
    and dist: "distinct sub_rules"
    and off: "t mod int (length sub_rules) \<noteq> 0"
    and keep: "keeps_sequencer rules"
    and mv: "mv \<in> set (SimpleTurn_get_legal_moves rules st)"
  shows "\<exists>st'. and_then (SimpleTurn_execute_move rules (Some mv) st)
                  (SimpleTurn_undo_move rules (Some mv)) = Inr st'
     \<and> sub_rule st' \<noteq> sub_rule st
     \<and> mv \<notin> set (SimpleTurn_get_legal_moves rules st')
     \<and> set (SimpleTurn_get_legal_moves rules st') \<noteq> set (SimpleTurn_get_legal_moves rules st)"
proof -
  let ?N = "int (length sub_rules)"
  have ne: "sub_rules \<noteq> []" using init
    by (auto simp: SimpleTurn_init_def and_then_def py_mod_def)
  have st: "st = \<lparr>sequence = sub_rules, turn = t mod ?N, sub_rule = sub_rules ! 0, rest = add_pieces gs\<rparr>"
    using init by (simp add: SimpleTurn_init_eq [OF ne])
  have seq: "sequence st = sub_rules" and trn: "turn st = t mod ?N" and act: "sub_rule st = sub_rules ! 0"
    by (simp_all add: st)
  obtain r m where rm: "mv = (r, m)" by (cases mv)
  have r: "r = sub_rules ! 0" using mv rm act by (auto simp: SimpleTurn_get_legal_moves_def)
  let ?adv = "st\<lparr>turn := (turn st + 1) mod ?N, sub_rule := sub_rules ! nat ((turn st + 1) mod ?N)\<rparr>"
  let ?ex = "execute_move (rules r) m ?adv"
  let ?un = "undo_move (rules r) m ?ex"
  have ex: "SimpleTurn_execute_move rules (Some mv) st = Inr ?ex"
    using SimpleTurn_execute_move_eq [of st rules "Some mv"] ne seq rm by simp
  have un_seq: "sequence ?un = sub_rules" and un_turn: "turn ?un = (t mod ?N + 1) mod ?N"
    using keep seq trn by (simp_all add: keeps_sequencer_def)
  have retreat: "(turn ?un - 1) mod ?N = t mod ?N"
    unfolding un_turn by (simp add: mod_simps)
  let ?st' = "?un\<lparr>turn := t mod ?N, sub_rule := sub_rules ! nat (t mod ?N)\<rparr>"
  have un_ne: "sequence ?un \<noteq> []" using ne by (simp only: un_seq) simp
  have un_case: "?un = (case Some mv of None \<Rightarrow> ?ex | Some (r, m) \<Rightarrow> undo_move (rules r) m ?ex)"
    by (simp only: rm option.case prod.case)
  have "SimpleTurn_undo_move rules (Some mv) ?ex =
      Inr (?un\<lparr>turn := (turn ?un - 1) mod int (length (sequence ?un)),
                sub_rule := sequence ?un ! nat ((turn ?un - 1) mod int (length (sequence ?un)))\<rparr>)"
    using un_ne un_case by (rule SimpleTurn_undo_move_eq)
  then have un: "SimpleTurn_undo_move rules (Some mv) ?ex = Inr ?st'"
    by (simp only: un_seq retreat)
  have bounds: "0 \<le> t mod ?N" "t mod ?N < ?N" using ne by simp_all
  have "nat (t mod ?N) < length sub_rules" "nat (t mod ?N) \<noteq> 0"
    using bounds off by (simp_all add: nat_less_iff)
  then have diff: "sub_rules ! nat (t mod ?N) \<noteq> sub_rules ! 0"
    using dist ne by (simp add: nth_eq_iff_index_eq)
  have notin: "mv \<notin> set (SimpleTurn_get_legal_moves rules ?st')"
  proof
    assume "mv \<in> set (SimpleTurn_get_legal_moves rules ?st')"
    then have "r = sub_rule ?st'" unfolding rm by (rule SimpleTurn_legal_tag)
    then have "sub_rules ! 0 = sub_rules ! nat (t mod ?N)" unfolding r by simp
    with diff show False by simp
  qed
  have differ: "set (SimpleTurn_get_legal_moves rules ?st') \<noteq> set (SimpleTurn_get_legal_moves rules st)"
  proof
    assume "set (SimpleTurn_get_legal_moves rules ?st') = set (SimpleTurn_get_legal_moves rules st)"
    with mv have "mv \<in> set (SimpleTurn_get_legal_moves rules ?st')" by (simp only:)
    with notin show False by (rule notE)
  qed
  have run: "and_then (SimpleTurn_execute_move rules (Some mv) st) (SimpleTurn_undo_move rules (Some mv)) = Inr ?st'"
    by (simp only: ex and_then_def sum.case un)
  have active: "sub_rule ?st' \<noteq> sub_rule st" using diff act by simp
  show ?thesis using run active notin differ by (intro exI conjI)
qed

theorem SimpleTurn_started_off_zero_not_reversible_witness:
  "SimpleTurn_init id (5::int) [''x'', ''y''] 1
     = Inr \<lparr>sequence = [''x'', ''y''], turn = 1, sub_rule = ''x'', rest = 5\<rparr>
   \<and> SimpleTurn_get_legal_moves counters
        \<lparr>sequence = [''x'', ''y''], turn = 1, sub_rule = ''x'', rest = (5::int)\<rparr> = [(''x'', 6)]
   \<and> and_then (SimpleTurn_execute_move counters (Some (''x'', 6))
                  \<lparr>sequence = [''x'', ''y''], turn = 1, sub_rule = ''x'', rest = (5::int)\<rparr>)
        (SimpleTurn_undo_move counters (Some (''x'', 6)))
       = Inr \<lparr>sequence = [''x'', ''y''], turn = 1, sub_rule = ''y'', rest = 5\<rparr>
   \<and> SimpleTurn_get_legal_moves counters
        \<lparr>sequence = [''x'', ''y''], turn = 1, sub_rule = ''y'', rest = (5::int)\<rparr> = [(''y'', 6)]
   \<and> (\<exists>st'. and_then (SimpleTurn_execute_move counters (Some (''x'', 6))
                  \<lparr>sequence = [''x'', ''y''], turn = 1, sub_rule = ''x'', rest = (5::int)\<rparr>)
               (SimpleTurn_undo_move counters (Some (''x'', 6))) = Inr st'
          \<and> set (SimpleTurn_get_legal_moves counters st')
              \<noteq> set (SimpleTurn_get_legal_moves counters
                    \<lparr>sequence = [''x'', ''y''], turn = 1, sub_rule = ''x'', rest = (5::int)\<rparr>))"
proof -
  let ?st = "\<lparr>sequence = [''x'', ''y''], turn = 1, sub_rule = ''x'', rest = (5::int)\<rparr>"
  have init: "SimpleTurn_init id (5::int) [''x'', ''y''] 1 = Inr ?st"
    by (simp add: SimpleTurn_init_eq)
  have legal: "SimpleTurn_get_legal_moves counters ?st = [(''x'', 6)]"
    by (simp add: SimpleTurn_get_legal_moves_def counters_def)
  have legal': "SimpleTurn_get_legal_moves counters
        \<lparr>sequence = [''x'', ''y''], turn = 1, sub_rule = ''y'', rest = (5::int)\<rparr> = [(''y'', 6)]"
    by (simp add: SimpleTurn_get_legal_moves_def counters_def)
  have run: "and_then (SimpleTurn_execute_move counters (Some (''x'', 6)) ?st)
        (SimpleTurn_undo_move counters (Some (''x'', 6)))
       = Inr \<lparr>sequence = [''x'', ''y''], turn = 1, sub_rule = ''y'', rest = 5\<rparr>"
    by (simp add: SimpleTurn_execute_move_def SimpleTurn_undo_move_def and_then_def py_mod_def
        py_index_def counters_def Let_def)
  have mv: "(''x'', 6) \<in> set (SimpleTurn_get_legal_moves counters ?st)" using legal by simp
  have "\<exists>st'. and_then (SimpleTurn_execute_move counters (Some (''x'', 6)) ?st)
               (SimpleTurn_undo_move counters (Some (''x'', 6))) = Inr st'
          \<and> set (SimpleTurn_get_legal_moves counters st')
              \<noteq> set (SimpleTurn_get_legal_moves counters ?st)"
  proof -
    have d: "distinct [''x'', ''y'']" by simp
    have off: "1 mod int (length [''x'', ''y'']) \<noteq> 0" by simp
    from SimpleTurn_started_off_zero_not_reversible [OF init d off keeps_sequencer_counters mv]
    obtain st' where "and_then (SimpleTurn_execute_move counters (Some (''x'', 6)) ?st)
               (SimpleTurn_undo_move counters (Some (''x'', 6))) = Inr st'"
      and "set (SimpleTurn_get_legal_moves counters st')
              \<noteq> set (SimpleTurn_get_legal_moves counters ?st)"
      by (elim exE conjE)
    then show ?thesis by (intro exI conjI)
  qed
  then show ?thesis using init legal legal' run by (intro conjI)
qed


section \<open>Properties of the pattern expansion\<close>

lemma flood_empty:
  "PatternRule_generate_legal_moves unit_steps (occupied []) never_skips [] [4, 4]
     = Some (map (\<lambda>c. (c, [4, 4], [])) flood_order)"
  by code_simp

lemma flood_self:
  "PatternRule_generate_legal_moves unit_steps (occupied [[4, 4]]) never_skips [] [4, 4]
     = Some (map (\<lambda>c. (c, [4, 4], [])) flood_order)"
  by code_simp

lemma flood_order_facts:
  "length flood_order = 64" "distinct flood_order" "set flood_order = set board"
  "[4, 4] \<in> set flood_order" "[5, 5] \<in> set flood_order"
  by code_simp+

lemma destinations_flood:
  "destinations (Some (map (\<lambda>c. (c, [4, 4], [])) flood_order)) = flood_order"
  by (simp add: destinations_def comp_def)

text \<open>
  Claim C4, as the code behaves. The pattern whose step function yields the four
  axis-aligned unit neighbours on the 8 by 8 board, that stops on occupied squares and
  skips nothing, placed on the empty board at \<open>(4, 4)\<close> over a sub-rule without moves:
  the expansion ends and enumerates 64 destinations, every cell of the board exactly
  once, \<open>(4, 4)\<close> itself among them. The step function has no direction, so the
  breadth-first expansion goes on from every square it reaches that does not stop it. The
  result is the same when the square \<open>(4, 4)\<close> of the piece itself counts as occupied.
\<close>

theorem four_neighbour_pattern_reaches_every_cell:
  "PatternRule_generate_legal_moves unit_steps (occupied []) never_skips [] [4, 4] \<noteq> None
   \<and> length (destinations (PatternRule_generate_legal_moves unit_steps (occupied []) never_skips [] [4, 4])) = 64
   \<and> distinct (destinations (PatternRule_generate_legal_moves unit_steps (occupied []) never_skips [] [4, 4]))
   \<and> set (destinations (PatternRule_generate_legal_moves unit_steps (occupied []) never_skips [] [4, 4]))
        = set board
   \<and> PatternRule_generate_legal_moves unit_steps (occupied [[4, 4]]) never_skips [] [4, 4]
        = PatternRule_generate_legal_moves unit_steps (occupied []) never_skips [] [4, 4]"
  by (simp only: flood_empty flood_self destinations_flood flood_order_facts(1-3)
      option.distinct simp_thms not_False_eq_True)

text \<open>
  Claim C4, as stated, fails on that input: the number of destinations is not 14, and the
  cell \<open>(5, 5)\<close>, which is neither in row 4 nor in column 4, and the cell \<open>(4, 4)\<close> of
  the piece itself are destinations.
\<close>

theorem four_neighbour_pattern_not_fourteen:
  "length (destinations (PatternRule_generate_legal_moves unit_steps (occupied []) never_skips [] [4, 4])) \<noteq> 14
   \<and> [5, 5] \<in> set (destinations (PatternRule_generate_legal_moves unit_steps (occupied []) never_skips [] [4, 4]))
   \<and> [4, 4] \<in> set (destinations (PatternRule_generate_legal_moves unit_steps (occupied []) never_skips [] [4, 4]))"
  by (simp only: flood_empty destinations_flood flood_order_facts(1,4,5)) simp


section \<open>Properties of the capture rule\<close>

lemma changed_top_rules [simp]: "top_rules (changed self undo w) = top_rules w"
  by (simp add: changed_def)

lemma changed_tile_coords [simp]: "tile_coords (changed self undo w) = tile_coords w"
  by (simp add: changed_def)

lemma get_top_rules_all [simp]: "get_top_rules w [] = top_rules w"
  by (simp add: get_top_rules_def)




lemma CoordinateRule_execute_undo_restores:
  assumes "fst (snd move) = CoordinateRule_get_coords self w"
  shows "tile_coords (CoordinateRule_undo_move self move (CoordinateRule_execute_move self move w))
           = tile_coords w
       \<and> top_rules (CoordinateRule_undo_move self move (CoordinateRule_execute_move self move w))
           = top_rules w"
  using assms
  by (auto simp: CoordinateRule_undo_move_def CoordinateRule_execute_move_def Tile_execute_move_def
      Tile_undo_move_def CoordinateRule_get_coords_def changed_def)

end
